theory Spec2Isabelle
  imports Complex_Main "HOL-Library.Word"
begin

unbundle bit_operations_syntax

section \<open>Secure transport configuration (audio\_processor.cpp, lines 199--250)\<close>

text \<open>
  \<open>WiFiClientSecure\<close> is a class of the platform library; the repository only calls its
  methods. A client is therefore modelled by the sequence of method calls it has received,
  oldest first: every call the code makes on the client appends one event.
\<close>

datatype client_call =
    SetInsecure
  | SetCACert string
  | SetTimeout nat
  | Connect string nat
  | Stop

type_synonym WiFiClientSecure = "client_call list"

text \<open>The pinned certificate \<open>root_ca\<close> (lines 16--37), a raw string literal.\<close>

definition root_ca :: string where
  "root_ca =
    ''\<newline>-----BEGIN CERTIFICATE-----\<newline>'' @
    ''MIIDQTCCAimgAwIBAgITBmyfz5m/jAo54vB4ikPmljZbyjANBgkqhkiG9w0BAQsF\<newline>'' @
    ''ADA5MQswCQYDVQQGEwJVUzEPMA0GA1UEChMGQW1hem9uMRkwFwYDVQQDExBBbWF6\<newline>'' @
    ''b24gUm9vdCBDQSAxMB4XDTE1MDUyNjAwMDAwMFoXDTM4MDExNzAwMDAwMFowOTEL\<newline>'' @
    ''MAkGA1UEBhMCVVMxDzANBgNVBAoTBkFtYXpvbjEZMBcGA1UEAxMQQW1hem9uIFJv\<newline>'' @
    ''b3QgQ0EgMTCCASIwDQYJKoZIhvcNAQEBBQADggEPADCCAQoCggEBALJ4gHHKeNXj\<newline>'' @
    ''ca9HgFB0fW7Y14h29Jlo91ghYPl0hAEvrAIthtOgQ3pOsqTQNroBvo3bSMgHFzZM\<newline>'' @
    ''9O6II8c+6zf1tRn4SWiw3te5djgdYZ6k/oI2peVKVuRF4fn9tBb6dNqcmzU5L/qw\<newline>'' @
    ''IFAGbHrQgLKm+a/sRxmPUDgH3KKHOVj4utWp+UhnMJbulHheb4mjUcAwhmahRWa6\<newline>'' @
    ''VOujw5H5SNz/0egwLX0tdHA114gk957EWW67c4cX8jJGKLhD+rcdqsq08p8kDi1L\<newline>'' @
    ''93FcXmn/6pUCyziKrlA4b9v7LWIbxcceVOF34GfID5yHI9Y/QCB/IIDEgEw+OyQm\<newline>'' @
    ''jgSubJrIqg0CAwEAAaNCMEAwDwYDVR0TAQH/BAUwAwEB/zAOBgNVHQ8BAf8EBAMC\<newline>'' @
    ''AYYwHQYDVR0OBBYEFIQYzIU07LwMlJQuCFmcx7IQTgoIMA0GCSqGSIb3DQEBCwUA\<newline>'' @
    ''A4IBAQCY8jdaQZChGsV2USggNiMOruYou6r4lK5IpDB/G/wkjUu0yKGX9rbxenDI\<newline>'' @
    ''U5PMCCjjmCXPI6T53iHTfIuJruydjsw2hUwsHlwjKhK5iNhKQQhQ9W2HH8ASBDCj\<newline>'' @
    ''MQKPuJ6J+WKxnVlCLWcSAqLnp5lLTM8mCKjg4LKmN6BkFcPBJTK+0Fk0q8cYnNE2\<newline>'' @
    ''5XUdGN9Uj3qPPPLxlODV3ZlhpPdKjfznRYXiGEaJpCkPpO5I6wMvqpQ8YE8dQw9c\<newline>'' @
    ''Qp2+MKjpXR6KEJPOKRv2i2vXhD7vNQY6N2QWFlZkqjZ2Dg0EUc1aXQjB+fGZ4TfU\<newline>'' @
    ''cQ8H2vEiZ3lk0mVWGhR4t/QP12nC6N+vR4hDl0Jy7k8L\<newline>'' @
    ''-----END CERTIFICATE-----\<newline>''"

record SecureConnectionManager =
  client_configured :: bool

text \<open>The constructor: \<open>client_configured(false)\<close>.\<close>

definition SecureConnectionManager_new :: SecureConnectionManager where
  "SecureConnectionManager_new = \<lparr>client_configured = False\<rparr>"

text \<open>
  \<open>setupSecureConnection\<close>. The preprocessor symbol \<open>DEVELOPMENT\<close> is a parameter of the
  model: \<open>True\<close> when the build defines it, so that the \<open>#ifdef\<close> branch is compiled, and
  \<open>False\<close> when the \<open>#else\<close> branch is. The function returns the manager and the client
  after the call.
\<close>

definition setupSecureConnection ::
  "bool \<Rightarrow> SecureConnectionManager \<Rightarrow> WiFiClientSecure \<Rightarrow> bool
     \<Rightarrow> SecureConnectionManager \<times> WiFiClientSecure" where
  "setupSecureConnection DEVELOPMENT mgr client development_mode =
     (let client' =
        (if development_mode then
           (if DEVELOPMENT then client @ [SetInsecure]
            else client @ [SetCACert root_ca])
         else client @ [SetCACert root_ca, SetTimeout 30000])
      in (mgr\<lparr>client_configured := True\<rparr>, client'))"

text \<open>
  \<open>verifyConnection\<close>. Whether \<open>client.connect(host, 443)\<close> succeeds is decided by the
  network and the peer; it is the parameter \<open>connect_result\<close>, asked with the host and the
  port of the call.
\<close>

definition verifyConnection ::
  "(string \<Rightarrow> nat \<Rightarrow> bool) \<Rightarrow> SecureConnectionManager \<Rightarrow> WiFiClientSecure \<Rightarrow> string
     \<Rightarrow> bool \<times> WiFiClientSecure" where
  "verifyConnection connect_result mgr client host =
     (if \<not> client_configured mgr then (False, client)
      else if \<not> connect_result host 443 then (False, client @ [Connect host 443])
      else (True, client @ [Connect host 443, Stop]))"

text \<open>The calls a function made on a client: what it appended to the client's history.\<close>

definition issued :: "WiFiClientSecure \<Rightarrow> WiFiClientSecure \<Rightarrow> client_call list" where
  "issued before after = drop (length before) after"

section \<open>Audio processor (audio\_processor.h, audio\_processor.cpp lines 41--197)\<close>

subsection \<open>Configuration constants and data\<close>

type_synonym uint8_t = "8 word"
type_synonym int16_t = "16 word"
type_synonym unsigned_long = "32 word"

definition COMPRESSION_BUFFER_SIZE :: nat where
  "COMPRESSION_BUFFER_SIZE = 8192"

definition SILENCE_THRESHOLD :: int where
  "SILENCE_THRESHOLD = 100"

definition SILENCE_MARKER :: uint8_t where
  "SILENCE_MARKER = 0xFF"

definition MIN_SILENCE_SAMPLES :: nat where
  "MIN_SILENCE_SAMPLES = 8"

definition MAX_SILENCE_RUN :: nat where
  "MAX_SILENCE_RUN = 2048"

text \<open>
  The two ratio fields are C \<open>float\<close>s. The code only converts sizes to \<open>float\<close>, adds,
  divides and uses the literals \<open>1.0f\<close> and \<open>2.0f\<close> (and the all-zero pattern that
  \<open>memset\<close> leaves, \<open>0.0f\<close>). These operations are a parameter of the model, so that
  nothing proved below depends on how binary32 arithmetic rounds or what it returns for a
  division by zero.
\<close>

record 'f float_ops =
  float_zero :: 'f
  float_one :: 'f
  float_two :: 'f
  float_of_size :: "nat \<Rightarrow> 'f"
  float_add :: "'f \<Rightarrow> 'f \<Rightarrow> 'f"
  float_div :: "'f \<Rightarrow> 'f \<Rightarrow> 'f"

text \<open>
  The same operations computed exactly on rationals. They agree with binary32 wherever
  operands and results are small dyadic rationals and no divisor is zero; they are used
  only to evaluate such runs.
\<close>

definition exact_ops :: "rat float_ops" where
  "exact_ops = \<lparr>float_zero = 0, float_one = 1, float_two = 2,
     float_of_size = of_nat, float_add = (+), float_div = (/)\<rparr>"

text \<open>\<open>struct CompressionStats\<close>; \<open>unsigned long\<close> has 32 bits on the ESP32.\<close>

record 'f CompressionStats =
  total_processed :: unsigned_long
  total_compressed :: unsigned_long
  silence_regions_compressed :: unsigned_long
  chunks_sent :: unsigned_long
  chunks_failed :: unsigned_long
  encoding_time_ms :: unsigned_long
  last_compression_ratio :: 'f
  average_compression_ratio :: 'f

text \<open>
  The private members of \<open>class AudioProcessor\<close>. A null \<open>compressed_buffer\<close> is
  \<open>None\<close>; an allocated one is the list of its bytes.
\<close>

record 'f AudioProcessor =
  compressed_buffer :: "uint8_t list option"
  stats :: "'f CompressionStats"

text \<open>What \<open>memset(&stats, 0, sizeof(CompressionStats))\<close> leaves.\<close>

definition zeroed_stats :: "'f float_ops \<Rightarrow> 'f CompressionStats" where
  "zeroed_stats F = \<lparr>total_processed = 0, total_compressed = 0,
     silence_regions_compressed = 0, chunks_sent = 0, chunks_failed = 0,
     encoding_time_ms = 0, last_compression_ratio = float_zero F,
     average_compression_ratio = float_zero F\<rparr>"

text \<open>
  The constructor. \<open>psramFound\<close>, \<open>heap_caps_malloc\<close> and \<open>malloc\<close> belong to the
  platform and are parameters; an allocator returns \<open>None\<close> for a null pointer. When the
  allocation fails the constructor returns before it initialises \<open>stats\<close>, which keeps
  whatever the object's memory held: the parameter \<open>uninitialised\<close>.
\<close>

definition AudioProcessor_new ::
  "'f float_ops \<Rightarrow> bool \<Rightarrow> (nat \<Rightarrow> uint8_t list option) \<Rightarrow> (nat \<Rightarrow> uint8_t list option)
     \<Rightarrow> 'f CompressionStats \<Rightarrow> 'f AudioProcessor" where
  "AudioProcessor_new F psramFound heap_caps_malloc malloc uninitialised =
     (let buffer = (if psramFound then heap_caps_malloc COMPRESSION_BUFFER_SIZE
                    else malloc COMPRESSION_BUFFER_SIZE)
      in case buffer of
           None \<Rightarrow> \<lparr>compressed_buffer = None, stats = uninitialised\<rparr>
         | Some b \<Rightarrow>
             \<lparr>compressed_buffer = Some b,
              stats = (zeroed_stats F)\<lparr>total_processed := 0, total_compressed := 0,
                        average_compression_ratio := float_one F\<rparr>\<rparr>)"

definition getStats :: "'f AudioProcessor \<Rightarrow> 'f CompressionStats" where
  "getStats p = stats p"


subsection \<open>Samples and bytes\<close>

text \<open>
  The code passes one buffer under two pointer types: \<open>(uint8_t*)samples\<close> in
  \<open>encodeAudioBase64\<close> and \<open>(int16_t*)input\<close> in \<open>compressAudio\<close>. The ESP32 is
  little-endian: sample \<open>k\<close> occupies bytes \<open>2k\<close> (low) and \<open>2k + 1\<close> (high). A buffer is
  modelled by the list of its elements and its size by the length of the list; sizes stay
  below \<open>2^31\<close> on the 32-bit target, so \<open>count * sizeof(int16_t)\<close> does not wrap.
\<close>

definition sample_at :: "uint8_t list \<Rightarrow> nat \<Rightarrow> int16_t" where
  "sample_at input k = word_cat (input ! (2 * k + 1)) (input ! (2 * k))"

definition samples_of :: "uint8_t list \<Rightarrow> int16_t list" where
  "samples_of input = map (sample_at input) [0..<length input div 2]"

definition bytes_of :: "int16_t list \<Rightarrow> uint8_t list" where
  "bytes_of samples = concat (map (\<lambda>s. [ucast s, ucast (drop_bit 8 s)]) samples)"

text \<open>\<open>abs(samples[i])\<close>: the sample is promoted to \<open>int\<close> before the sign is dropped.\<close>

definition abs_sample :: "int16_t \<Rightarrow> int" where
  "abs_sample s = \<bar>sint s\<bar>"

subsection \<open>Silence detection\<close>

text \<open>
  \<open>isSilence\<close> and \<open>countSilence\<close> receive a pointer into the sample buffer and the
  number of samples from there to its end. The pointer is modelled by the list of the
  samples from it to the end of the buffer (\<open>None\<close> when null), and \<open>available_count\<close> is
  the length of that list. Each \<open>for\<close> loop runs over the first \<open>check_count\<close>
  (\<open>max_silence\<close>) samples.
\<close>

fun isSilence_scan :: "int16_t list \<Rightarrow> bool" where
  "isSilence_scan [] = True"
| "isSilence_scan (s # rest) =
     (if abs_sample s > SILENCE_THRESHOLD then False else isSilence_scan rest)"

definition isSilence :: "int16_t list option \<Rightarrow> bool" where
  "isSilence p =
     (case p of
        None \<Rightarrow> False
      | Some samples \<Rightarrow>
          (let available_count = length samples in
           if available_count < MIN_SILENCE_SAMPLES then False
           else (let check_count = min MIN_SILENCE_SAMPLES available_count
                 in isSilence_scan (take check_count samples))))"

fun countSilence_scan :: "nat \<Rightarrow> int16_t list \<Rightarrow> nat" where
  "countSilence_scan silence_count [] = silence_count"
| "countSilence_scan silence_count (s # rest) =
     (if abs_sample s \<le> SILENCE_THRESHOLD then countSilence_scan (silence_count + 1) rest
      else silence_count)"

definition countSilence :: "int16_t list option \<Rightarrow> nat" where
  "countSilence p =
     (case p of
        None \<Rightarrow> 0
      | Some samples \<Rightarrow>
          (let available_count = length samples in
           if available_count = 0 then 0
           else (let max_silence = min MAX_SILENCE_RUN available_count
                 in countSilence_scan 0 (take max_silence samples))))"

subsection \<open>The compression loop\<close>

text \<open>
  The variables that the \<open>while\<close> loop of \<open>compressAudio\<close> changes: the two cursors, the
  output buffer and the statistics (the counter of silence regions).
\<close>

record 'f compress_state =
  cs_out_idx :: nat
  cs_i :: nat
  cs_output :: "uint8_t list"
  cs_stats :: "'f CompressionStats"

text \<open>One pass through the loop body, after the two exit tests.\<close>

definition compress_body :: "uint8_t list \<Rightarrow> 'f compress_state \<Rightarrow> 'f compress_state" where
  "compress_body input st =
     (let samples = samples_of input;
          i = cs_i st;
          out_idx = cs_out_idx st;
          output = cs_output st
      in if isSilence (Some (drop i samples)) then
           (let silence_count = countSilence (Some (drop i samples))
            in st\<lparr>cs_output :=
                     output[out_idx := SILENCE_MARKER,
                            out_idx + 1 := of_nat (silence_count AND 0xFF),
                            out_idx + 2 := of_nat (drop_bit 8 silence_count AND 0xFF)],
                   cs_out_idx := out_idx + 3,
                   cs_i := i + silence_count,
                   cs_stats := (cs_stats st)\<lparr>silence_regions_compressed :=
                                 silence_regions_compressed (cs_stats st) + 1\<rparr>\<rparr>)
         else
           st\<lparr>cs_output := output[out_idx := input ! (i * 2),
                                    out_idx + 1 := input ! (i * 2 + 1)],
              cs_out_idx := out_idx + 2,
              cs_i := i + 1\<rparr>)"

text \<open>The loop continues while input is left and the buffer-full test does not break.\<close>

definition compress_cond :: "uint8_t list \<Rightarrow> 'f compress_state \<Rightarrow> bool" where
  "compress_cond input st \<longleftrightarrow>
     cs_i st < length input div 2 \<and> \<not> cs_out_idx st \<ge> COMPRESSION_BUFFER_SIZE - 4"

text \<open>A silence run that the probe accepts has at least the probed samples.\<close>

lemma countSilence_scan_takeWhile:
  "countSilence_scan n xs
     = n + length (takeWhile (\<lambda>s. abs_sample s \<le> SILENCE_THRESHOLD) xs)"
  by (induction xs arbitrary: n) auto

lemma isSilence_scan_all:
  "isSilence_scan xs \<longleftrightarrow> (\<forall>s \<in> set xs. abs_sample s \<le> SILENCE_THRESHOLD)"
  by (induction xs) auto

lemma takeWhile_prefix_length:
  "\<forall>x \<in> set (take n xs). P x \<Longrightarrow> n \<le> length xs \<Longrightarrow> n \<le> length (takeWhile P xs)"
proof (induction xs arbitrary: n)
  case Nil
  then show ?case by simp
next
  case (Cons x xs)
  show ?case
  proof (cases n)
    case 0
    then show ?thesis by simp
  next
    case (Suc m)
    with Cons.prems have "P x" and "\<forall>y \<in> set (take m xs). P y" and "m \<le> length xs"
      by auto
    with Cons.IH [of m] Suc show ?thesis by simp
  qed
qed

lemma countSilence_probe:
  assumes "isSilence (Some v)"
  shows "MIN_SILENCE_SAMPLES \<le> countSilence (Some v)"
proof -
  let ?P = "\<lambda>s. abs_sample s \<le> SILENCE_THRESHOLD"
  from assms have len: "8 \<le> length v" and quiet: "\<forall>s \<in> set (take 8 v). ?P s"
    by (auto simp: isSilence_def MIN_SILENCE_SAMPLES_def Let_def isSilence_scan_all
        split: if_splits)
  let ?m = "min MAX_SILENCE_RUN (length v)"
  have m8: "8 \<le> ?m" using len by (simp add: MAX_SILENCE_RUN_def)
  have "take 8 (take ?m v) = take 8 v" using m8 by (simp add: min_def)
  with quiet have "\<forall>s \<in> set (take 8 (take ?m v)). ?P s" by simp
  moreover have "8 \<le> length (take ?m v)" using m8 by simp
  ultimately have "8 \<le> length (takeWhile ?P (take ?m v))"
    by (rule takeWhile_prefix_length)
  moreover from len have "v \<noteq> []" by auto
  ultimately show ?thesis
    by (simp add: countSilence_def Let_def countSilence_scan_takeWhile
        MIN_SILENCE_SAMPLES_def)
qed

lemma countSilence_le: "countSilence (Some v) \<le> length v"
proof -
  have "length (takeWhile P (take m v)) \<le> length v" for P :: "int16_t \<Rightarrow> bool" and m
    using length_takeWhile_le [of P "take m v"] by simp
  then show ?thesis
    by (simp add: countSilence_def Let_def countSilence_scan_takeWhile)
qed

lemma compress_body_advances:
  "cs_i st < cs_i (compress_body input st)"
proof (cases "isSilence (Some (drop (cs_i st) (samples_of input)))")
  case True
  from countSilence_probe [OF True] show ?thesis
    using True by (simp add: compress_body_def Let_def MIN_SILENCE_SAMPLES_def)
next
  case False
  then show ?thesis by (simp add: compress_body_def Let_def)
qed

function compress_loop :: "uint8_t list \<Rightarrow> 'f compress_state \<Rightarrow> 'f compress_state" where
  "compress_loop input st =
     (if compress_cond input st then compress_loop input (compress_body input st) else st)"
  by pat_completeness auto
termination
proof (relation "measure (\<lambda>(input, st). length input div 2 - cs_i st)")
  show "wf (measure (\<lambda>(input, st :: 'f compress_state). length input div 2 - cs_i st))"
    by simp
next
  fix input and st :: "'f compress_state"
  assume "compress_cond input st"
  then have "cs_i st < length input div 2" by (simp add: compress_cond_def)
  with compress_body_advances [of st input]
  show "((input, compress_body input st), (input, st))
          \<in> measure (\<lambda>(input, st). length input div 2 - cs_i st)"
    by simp
qed

declare compress_loop.simps [simp del]

text \<open>
  \<open>compressAudio\<close>: the compressed length, the output buffer and the statistics after
  the call. The two log statements have no effect on them.
\<close>

definition compressAudio ::
  "'f CompressionStats \<Rightarrow> uint8_t list option \<Rightarrow> uint8_t list option
     \<Rightarrow> nat \<times> uint8_t list option \<times> 'f CompressionStats" where
  "compressAudio st input output =
     (case (input, output) of
        (Some inp, Some out) \<Rightarrow>
          (if length inp = 0 then (0, output, st)
           else (let final = compress_loop inp
                       \<lparr>cs_out_idx = 0, cs_i = 0, cs_output = out, cs_stats = st\<rparr>
                 in (cs_out_idx final, Some (cs_output final), cs_stats final)))
      | _ \<Rightarrow> (0, output, st))"

text \<open>
  \<open>encodeAudioBase64\<close>: the returned string and the processor after the call.
  \<open>base64::encode\<close> is a library function and \<open>millis()\<close> the device clock: the encoder
  and the two clock readings are parameters. \<open>count\<close> is the length of the sample list.
\<close>

definition encodeAudioBase64 ::
  "'f float_ops \<Rightarrow> (uint8_t list \<Rightarrow> string) \<Rightarrow> unsigned_long \<Rightarrow> unsigned_long
     \<Rightarrow> 'f AudioProcessor \<Rightarrow> int16_t list option \<Rightarrow> string \<times> 'f AudioProcessor" where
  "encodeAudioBase64 F base64_encode start_time end_time p samples =
     (case samples of
        None \<Rightarrow> ([], p)
      | Some smp \<Rightarrow>
          (let count = length smp in
           if count = 0 then ([], p)
           else
             (let byte_count = count * 2;
                  byte_data = bytes_of smp;
                  (compressed_size, buffer, st1) =
                     compressAudio (stats p) (Some byte_data) (compressed_buffer p);
                  encoded = base64_encode
                     (case buffer of None \<Rightarrow> [] | Some b \<Rightarrow> take compressed_size b);
                  st2 = st1\<lparr>encoding_time_ms := end_time - start_time,
                            total_processed := total_processed st1 + of_nat byte_count,
                            total_compressed := total_compressed st1 + of_nat compressed_size,
                            last_compression_ratio :=
                              float_div F (float_of_size F byte_count)
                                (float_of_size F compressed_size)\<rparr>;
                  st3 = st2\<lparr>average_compression_ratio :=
                              float_div F
                                (float_add F (average_compression_ratio st2)
                                   (last_compression_ratio st2))
                                (float_two F)\<rparr>
              in (encoded, p\<lparr>compressed_buffer := buffer, stats := st3\<rparr>))))"

subsection \<open>Predicates of the specification\<close>

text \<open>
  A sample buffer contains a silence run of the minimum length: some window of
  \<open>MIN_SILENCE_SAMPLES\<close> consecutive samples has every absolute value at or below the
  threshold. A longer run contains such a window.
\<close>

definition has_silence_run :: "int16_t list \<Rightarrow> bool" where
  "has_silence_run samples \<longleftrightarrow>
     (\<exists>k \<in> {0..<length samples}.
        k + MIN_SILENCE_SAMPLES \<le> length samples
      \<and> (\<forall>j \<in> {0..<MIN_SILENCE_SAMPLES}.
            abs_sample (samples ! (k + j)) \<le> SILENCE_THRESHOLD))"

section \<open>Auxiliary facts about the codec\<close>

subsection \<open>The two views of a buffer\<close>

lemma length_bytes_of: "length (bytes_of xs) = 2 * length xs"
  by (induction xs) (auto simp: bytes_of_def)

lemma bytes_of_Cons: "bytes_of (x # xs) = ucast x # ucast (drop_bit 8 x) # bytes_of xs"
  by (simp add: bytes_of_def)

lemma word_cat_bytes:
  "word_cat (ucast (drop_bit 8 s) :: uint8_t) (ucast s :: uint8_t) = (s :: int16_t)"
  by (rule bit_word_eqI) (auto simp: bit_simps)

lemma bytes_of_nth:
  "k < length xs \<Longrightarrow>
     bytes_of xs ! (2 * k) = ucast (xs ! k)
   \<and> bytes_of xs ! Suc (2 * k) = ucast (drop_bit 8 (xs ! k))"
proof (induction xs arbitrary: k)
  case Nil
  then show ?case by simp
next
  case (Cons x xs)
  show ?case
  proof (cases k)
    case 0
    then show ?thesis by (simp add: bytes_of_Cons)
  next
    case (Suc m)
    with Cons.prems have "m < length xs" by simp
    from Cons.IH [OF this] Suc show ?thesis by (simp add: bytes_of_Cons)
  qed
qed

lemma samples_of_bytes_of: "samples_of (bytes_of xs) = xs"
  by (rule nth_equalityI)
    (simp_all add: samples_of_def length_bytes_of sample_at_def bytes_of_nth word_cat_bytes)

subsection \<open>One pass of the loop body\<close>

lemma compress_body_out_idx:
  "cs_out_idx (compress_body input st) = cs_out_idx st + 2
   \<or> cs_out_idx (compress_body input st) = cs_out_idx st + 3"
  by (simp add: compress_body_def Let_def)

lemma compress_body_length:
  "length (cs_output (compress_body input st)) = length (cs_output st)"
  by (simp add: compress_body_def Let_def)

lemma compress_body_frame:
  "j < cs_out_idx st \<or> cs_out_idx (compress_body input st) \<le> j
     \<Longrightarrow> cs_output (compress_body input st) ! j = cs_output st ! j"
  by (auto simp: compress_body_def Let_def)


subsection \<open>Invariants of the loop\<close>

lemma compress_loop_out_idx_mono:
  "cs_out_idx st \<le> cs_out_idx (compress_loop input st)"
proof (induction input st rule: compress_loop.induct)
  case (1 input st)
  show ?case
  proof (cases "compress_cond input st")
    case True
    from "1.IH" [OF True] compress_body_out_idx [of input st] True
    show ?thesis by (subst compress_loop.simps) auto
  next
    case False
    then show ?thesis by (subst compress_loop.simps) simp
  qed
qed


lemma compress_loop_length:
  "length (cs_output (compress_loop input st)) = length (cs_output st)"
proof (induction input st rule: compress_loop.induct)
  case (1 input st)
  show ?case
  proof (cases "compress_cond input st")
    case True
    from "1.IH" [OF True] True
    show ?thesis by (subst compress_loop.simps) (simp add: compress_body_length)
  next
    case False
    then show ?thesis by (subst compress_loop.simps) simp
  qed
qed

lemma compress_loop_frame:
  "j < cs_out_idx st \<or> cs_out_idx (compress_loop input st) \<le> j
     \<Longrightarrow> cs_output (compress_loop input st) ! j = cs_output st ! j"
proof (induction input st rule: compress_loop.induct)
  case (1 input st)
  show ?case
  proof (cases "compress_cond input st")
    case True
    have unfold: "compress_loop input st = compress_loop input (compress_body input st)"
      using True by (subst compress_loop.simps) simp
    have grow: "cs_out_idx st \<le> cs_out_idx (compress_body input st)"
      using compress_body_out_idx [of input st] by auto
    have mono: "cs_out_idx (compress_body input st)
        \<le> cs_out_idx (compress_loop input (compress_body input st))"
      by (rule compress_loop_out_idx_mono)
    from "1.prems" unfold grow mono
    have j: "j < cs_out_idx (compress_body input st)
        \<or> cs_out_idx (compress_loop input (compress_body input st)) \<le> j"
      by auto
    from "1.prems" unfold mono
    have j': "j < cs_out_idx st \<or> cs_out_idx (compress_body input st) \<le> j"
      by auto
    from "1.IH" [OF True j] compress_body_frame [OF j'] unfold
    show ?thesis by simp
  next
    case False
    then show ?thesis by (subst compress_loop.simps) simp
  qed
qed



lemma compress_loop_iterations:
  "\<exists>m \<le> length input div 2 - cs_i st.
      \<not> compress_cond input ((compress_body input ^^ m) st)
    \<and> compress_loop input st = (compress_body input ^^ m) st"
proof (induction input st rule: compress_loop.induct)
  case (1 input st)
  show ?case
  proof (cases "compress_cond input st")
    case False
    then have "compress_loop input st = st" by (subst compress_loop.simps) simp
    with False show ?thesis by (intro exI [of _ 0]) simp
  next
    case True
    from "1.IH" [OF True] obtain m where
      m: "m \<le> length input div 2 - cs_i (compress_body input st)"
        "\<not> compress_cond input ((compress_body input ^^ m) (compress_body input st))"
        "compress_loop input (compress_body input st)
           = (compress_body input ^^ m) (compress_body input st)"
      by blast
    from True have "cs_i st < length input div 2" by (simp add: compress_cond_def)
    with m(1) compress_body_advances [of st input]
    have "Suc m \<le> length input div 2 - cs_i st" by arith
    moreover from m(2) have "\<not> compress_cond input ((compress_body input ^^ Suc m) st)"
      by (simp add: funpow_swap1)
    moreover from True m(3) have "compress_loop input st = (compress_body input ^^ Suc m) st"
      by (subst compress_loop.simps) (simp add: funpow_swap1)
    ultimately show ?thesis by blast
  qed
qed

subsection \<open>Runs of loud samples\<close>


lemma compress_body_loud:
  assumes "\<not> isSilence (Some (drop (cs_i st) (samples_of input)))"
  shows "compress_body input st =
           st\<lparr>cs_output := (cs_output st)[cs_out_idx st := input ! (cs_i st * 2),
                                           cs_out_idx st + 1 := input ! (cs_i st * 2 + 1)],
              cs_out_idx := cs_out_idx st + 2,
              cs_i := cs_i st + 1\<rparr>"
  using assms by (simp add: compress_body_def Let_def)




subsection \<open>Input without silence\<close>

lemma compress_loop_loud:
  assumes "\<forall>k. \<not> isSilence (Some (drop k (samples_of input)))"
    and "cs_i st \<le> length input div 2"
    and "cs_out_idx st + 2 * (length input div 2 - cs_i st) \<le> COMPRESSION_BUFFER_SIZE - 4"
    and "COMPRESSION_BUFFER_SIZE \<le> length (cs_output st)"
  shows "cs_out_idx (compress_loop input st)
           = cs_out_idx st + 2 * (length input div 2 - cs_i st)
       \<and> (\<forall>k. cs_i st \<le> k \<and> k < length input div 2 \<longrightarrow>
             cs_output (compress_loop input st) ! (cs_out_idx st + 2 * (k - cs_i st))
               = input ! (2 * k)
           \<and> cs_output (compress_loop input st) ! (cs_out_idx st + 2 * (k - cs_i st) + 1)
               = input ! (2 * k + 1))"
  using assms
proof (induction input st rule: compress_loop.induct)
  case (1 input st)
  note loud = "1.prems"(1)
  show ?case
  proof (cases "compress_cond input st")
    case False
    with "1.prems" have "length input div 2 - cs_i st = 0"
      by (auto simp: compress_cond_def COMPRESSION_BUFFER_SIZE_def)
    with False show ?thesis by (subst compress_loop.simps) auto
  next
    case True
    let ?b = "compress_body input st"
    let ?fin = "compress_loop input ?b"
    from True have lt: "cs_i st < length input div 2" by (simp add: compress_cond_def)
    have unfold: "compress_loop input st = ?fin"
      using True by (subst compress_loop.simps) simp
    have body: "?b = st\<lparr>cs_output := (cs_output st)[cs_out_idx st := input ! (cs_i st * 2),
                                           cs_out_idx st + 1 := input ! (cs_i st * 2 + 1)],
              cs_out_idx := cs_out_idx st + 2,
              cs_i := cs_i st + 1\<rparr>"
      using loud by (intro compress_body_loud) simp
    have b: "cs_i ?b = cs_i st + 1" "cs_out_idx ?b = cs_out_idx st + 2"
        "length (cs_output ?b) = length (cs_output st)"
      by (simp_all add: body)
    from "1.prems" lt b
    have pre: "cs_i ?b \<le> length input div 2"
        "cs_out_idx ?b + 2 * (length input div 2 - cs_i ?b) \<le> COMPRESSION_BUFFER_SIZE - 4"
        "COMPRESSION_BUFFER_SIZE \<le> length (cs_output ?b)"
      by simp_all
    note IH = "1.IH" [OF True loud pre]
    from IH lt b have idx: "cs_out_idx ?fin = cs_out_idx st + 2 * (length input div 2 - cs_i st)"
      by simp
    have inrange: "cs_out_idx st + 1 < length (cs_output st)"
      using "1.prems" lt by (simp add: COMPRESSION_BUFFER_SIZE_def)
    have first: "cs_output ?fin ! cs_out_idx st = input ! (2 * cs_i st)"
        "cs_output ?fin ! (cs_out_idx st + 1) = input ! (2 * cs_i st + 1)"
    proof -
      have "cs_output ?fin ! cs_out_idx st = cs_output ?b ! cs_out_idx st"
        by (rule compress_loop_frame) (simp add: b)
      also have "\<dots> = input ! (2 * cs_i st)"
        using inrange by (simp add: body mult.commute)
      finally show "cs_output ?fin ! cs_out_idx st = input ! (2 * cs_i st)" .
      have "cs_output ?fin ! (cs_out_idx st + 1) = cs_output ?b ! (cs_out_idx st + 1)"
        by (rule compress_loop_frame) (simp add: b)
      also have "\<dots> = input ! (2 * cs_i st + 1)"
        using inrange by (simp add: body mult.commute)
      finally show "cs_output ?fin ! (cs_out_idx st + 1) = input ! (2 * cs_i st + 1)" .
    qed
    have rest: "cs_output ?fin ! (cs_out_idx st + 2 * (k - cs_i st)) = input ! (2 * k)
        \<and> cs_output ?fin ! (cs_out_idx st + 2 * (k - cs_i st) + 1) = input ! (2 * k + 1)"
      if "cs_i st \<le> k" "k < length input div 2" for k
    proof (cases "k = cs_i st")
      case True
      with first show ?thesis by simp
    next
      case False
      with that have k: "cs_i ?b \<le> k" by (simp add: b)
      then have "cs_out_idx ?b + 2 * (k - cs_i ?b) = cs_out_idx st + 2 * (k - cs_i st)"
        by (simp add: b)
      with IH k that(2) show ?thesis by metis
    qed
    from idx rest unfold show ?thesis by simp
  qed
qed

subsection \<open>Input that is one silence run\<close>

lemma low_byte_nat: "unat (of_nat (n AND 0xFF) :: uint8_t) = n mod 256"
proof -
  have "n AND 0xFF = take_bit 8 n"
    by (simp add: take_bit_eq_mask mask_eq_exp_minus_1)
  then show ?thesis by (simp add: take_bit_eq_mod unat_of_nat)
qed

lemma compress_loop_silence_run:
  assumes "8 \<le> length xs" and "length xs \<le> 2048"
    and "\<forall>s \<in> set xs. abs_sample s \<le> SILENCE_THRESHOLD"
    and "cs_i st = 0" and "cs_out_idx st < COMPRESSION_BUFFER_SIZE - 4"
  shows "compress_loop (bytes_of xs) st =
           st\<lparr>cs_output :=
                 (cs_output st)[cs_out_idx st := SILENCE_MARKER,
                    cs_out_idx st + 1 := of_nat (length xs AND 0xFF),
                    cs_out_idx st + 2 := of_nat (drop_bit 8 (length xs) AND 0xFF)],
              cs_out_idx := cs_out_idx st + 3,
              cs_i := length xs,
              cs_stats := (cs_stats st)\<lparr>silence_regions_compressed :=
                            silence_regions_compressed (cs_stats st) + 1\<rparr>\<rparr>"
proof -
  let ?inp = "bytes_of xs"
  from assms(1) have ne: "xs \<noteq> []" by auto
  have cond: "compress_cond ?inp st"
    using assms ne by (simp add: compress_cond_def length_bytes_of)
  have "\<forall>s \<in> set (take 8 xs). abs_sample s \<le> SILENCE_THRESHOLD"
    using assms(3) by (auto dest: in_set_takeD)
  then have sil: "isSilence (Some (drop (cs_i st) (samples_of ?inp)))"
    using assms(1,4)
    by (simp add: isSilence_def Let_def MIN_SILENCE_SAMPLES_def samples_of_bytes_of
        isSilence_scan_all)
  have tw: "takeWhile (\<lambda>s. abs_sample s \<le> SILENCE_THRESHOLD) xs = xs"
    using assms(3) by (simp add: takeWhile_eq_all_conv)
  have cnt: "countSilence (Some (drop (cs_i st) (samples_of ?inp))) = length xs"
    using assms(1,2,4) ne
    by (simp add: countSilence_def Let_def MAX_SILENCE_RUN_def samples_of_bytes_of
        countSilence_scan_takeWhile min_def tw)
  let ?b = "compress_body ?inp st"
  have body: "?b = st\<lparr>cs_output :=
                 (cs_output st)[cs_out_idx st := SILENCE_MARKER,
                    cs_out_idx st + 1 := of_nat (length xs AND 0xFF),
                    cs_out_idx st + 2 := of_nat (drop_bit 8 (length xs) AND 0xFF)],
              cs_out_idx := cs_out_idx st + 3,
              cs_i := length xs,
              cs_stats := (cs_stats st)\<lparr>silence_regions_compressed :=
                            silence_regions_compressed (cs_stats st) + 1\<rparr>\<rparr>"
    using sil cnt assms(4) by (simp add: compress_body_def Let_def)
  then have "cs_i ?b = length xs" by simp
  then have stop: "\<not> compress_cond ?inp ?b"
    by (simp add: compress_cond_def length_bytes_of)
  have "compress_loop ?inp st = compress_loop ?inp ?b"
    using cond by (subst compress_loop.simps) simp
  also have "\<dots> = ?b" using stop by (subst compress_loop.simps) simp
  finally show ?thesis using body by simp
qed

lemma isSilence_has_silence_run:
  assumes "isSilence (Some (drop k xs))"
  shows "has_silence_run xs"
proof -
  from assms have len: "k + 8 \<le> length xs"
      and quiet: "\<forall>s \<in> set (take 8 (drop k xs)). abs_sample s \<le> SILENCE_THRESHOLD"
    by (auto simp: isSilence_def MIN_SILENCE_SAMPLES_def Let_def isSilence_scan_all
        split: if_splits)
  have "abs_sample (xs ! (k + j)) \<le> SILENCE_THRESHOLD" if "j < 8" for j
  proof -
    from that len have "take 8 (drop k xs) ! j = xs ! (k + j)" by simp
    moreover from that len have "take 8 (drop k xs) ! j \<in> set (take 8 (drop k xs))"
      by (intro nth_mem) simp
    ultimately show ?thesis using quiet by auto
  qed
  with len show ?thesis
    by (auto simp: has_silence_run_def MIN_SILENCE_SAMPLES_def intro!: bexI [of _ k])
qed

subsection \<open>The encode operation\<close>


lemma encodeAudioBase64_stats:
  assumes "smp \<noteq> []"
  shows "stats (snd (encodeAudioBase64 F base64_encode start_time end_time p (Some smp))) =
     (let c = compressAudio (stats p) (Some (bytes_of smp)) (compressed_buffer p);
          st1 = snd (snd c);
          ratio = float_div F (float_of_size F (length smp * 2)) (float_of_size F (fst c))
      in st1\<lparr>encoding_time_ms := end_time - start_time,
              total_processed := total_processed st1 + of_nat (length smp * 2),
              total_compressed := total_compressed st1 + of_nat (fst c),
              last_compression_ratio := ratio,
              average_compression_ratio :=
                float_div F (float_add F (average_compression_ratio st1) ratio)
                  (float_two F)\<rparr>)"
  using assms by (simp add: encodeAudioBase64_def Let_def split_def)


lemma compressAudio_at_least_two:
  assumes "2 \<le> length inp"
  shows "2 \<le> fst (compressAudio st (Some inp) (Some out))"
proof -
  let ?st0 = "\<lparr>cs_out_idx = 0, cs_i = 0, cs_output = out, cs_stats = st\<rparr>"
  from assms have cond: "compress_cond inp ?st0"
    by (simp add: compress_cond_def COMPRESSION_BUFFER_SIZE_def) 
  then have "compress_loop inp ?st0 = compress_loop inp (compress_body inp ?st0)"
    by (subst compress_loop.simps) simp
  moreover have "2 \<le> cs_out_idx (compress_body inp ?st0)"
    using compress_body_out_idx [of inp ?st0] by auto
  moreover have "cs_out_idx (compress_body inp ?st0)
      \<le> cs_out_idx (compress_loop inp (compress_body inp ?st0))"
    by (rule compress_loop_out_idx_mono)
  ultimately have "2 \<le> cs_out_idx (compress_loop inp ?st0)" by simp
  with assms show ?thesis by (auto simp: compressAudio_def Let_def)
qed







section \<open>Properties\<close>

text \<open>
  Claim C1. In a build without the \<open>DEVELOPMENT\<close> flag, every call of
  \<open>setupSecureConnection\<close>, whatever \<open>development_mode\<close> is, calls \<open>setCACert\<close> with the
  pinned root CA on the client and never calls \<open>setInsecure\<close>.
\<close>

theorem C1_production_build_pins_ca:
  assumes "\<not> DEVELOPMENT"
  shows "SetCACert root_ca \<in>
           set (issued client (snd (setupSecureConnection DEVELOPMENT mgr client development_mode)))
       \<and> SetInsecure \<notin>
           set (issued client (snd (setupSecureConnection DEVELOPMENT mgr client development_mode)))"
  using assms by (simp add: setupSecureConnection_def issued_def Let_def)

theorem C1_production_build_pins_ca_witness:
  "\<not> False
   \<and> SetCACert root_ca \<in>
       set (issued [] (snd (setupSecureConnection False SecureConnectionManager_new [] True)))
   \<and> SetInsecure \<notin>
       set (issued [] (snd (setupSecureConnection False SecureConnectionManager_new [] True)))"
  using C1_production_build_pins_ca [of False "[]" SecureConnectionManager_new True]
  by simp

text \<open>
  Claim C2, as stated: after setup, \<open>verifyConnection\<close> closes the connection (calls
  \<open>stop\<close>) before it returns, on the success and on the failure outcome of the connect.
  It fails on the failure outcome: when \<open>connect\<close> returns false the function returns
  false at once, and the only call the client has received is the connect.
\<close>

theorem C2_stop_on_failure_counterexample:
  "\<not> (Stop \<in> set (issued []
          (snd (verifyConnection (\<lambda>h p. False)
                 (fst (setupSecureConnection False SecureConnectionManager_new [] False))
                 [] ''teddy-cloud.secureai.com''))))"
  by (simp add: verifyConnection_def setupSecureConnection_def issued_def Let_def)

text \<open>
  Claim C2, amended: in state Configured, \<open>verifyConnection\<close> makes one connect to
  \<open>host:443\<close> and returns its outcome; when the connect succeeded the connection is
  closed by \<open>stop\<close>, the last call before the return, and when it failed the function
  returns false without any further call on the client.
\<close>

theorem C2_stop_after_successful_connect:
  assumes "client_configured mgr"
  shows "fst (verifyConnection connect_result mgr client host) = connect_result host 443
       \<and> issued client (snd (verifyConnection connect_result mgr client host)) =
           (if connect_result host 443 then [Connect host 443, Stop] else [Connect host 443])"
  using assms by (simp add: verifyConnection_def issued_def)

theorem C2_stop_after_successful_connect_witness:
  "client_configured (fst (setupSecureConnection False SecureConnectionManager_new [] False))
   \<and> fst (verifyConnection (\<lambda>h p. True)
            (fst (setupSecureConnection False SecureConnectionManager_new [] False))
            [] ''teddy-cloud.secureai.com'') = True
   \<and> issued [] (snd (verifyConnection (\<lambda>h p. True)
            (fst (setupSecureConnection False SecureConnectionManager_new [] False))
            [] ''teddy-cloud.secureai.com''))
       = [Connect ''teddy-cloud.secureai.com'' 443, Stop]"
proof -
  have cfg: "client_configured
      (fst (setupSecureConnection False SecureConnectionManager_new [] False))"
    by (simp add: setupSecureConnection_def Let_def)
  show ?thesis
    using cfg C2_stop_after_successful_connect [OF cfg, of "\<lambda>h p. True" "[]"
        "''teddy-cloud.secureai.com''"]
    by simp
qed




text \<open>
  Claim C4: when construction could not allocate the compression buffer, every later
  operation, \<open>encodeAudioBase64\<close> in particular, is a no-op that reports failure and
  leaves the statistics unchanged. The code returns the encoding of zero bytes, but it
  does not leave the statistics alone: \<open>compressAudio\<close> returns 0 for the null output,
  and \<open>encodeAudioBase64\<close> goes on to add the raw size to \<open>total_processed\<close>, to set
  the encoding time, and to divide the raw size by the compressed size 0 for
  \<open>last_compression_ratio\<close>, which it then folds into the running average. Shown for
  one sample of value 1000, any platform parameters and any content \<open>u\<close> of the
  statistics that the failed constructor never initialised.
\<close>

theorem C4_null_buffer_encode_updates_stats:
  "(let p = AudioProcessor_new F psramFound (\<lambda>n. None) (\<lambda>n. None) u;
        r = encodeAudioBase64 F base64_encode t0 t1 p (Some [1000])
    in compressed_buffer p = None
     \<and> stats p = u
     \<and> fst r = base64_encode []
     \<and> compressed_buffer (snd r) = None
     \<and> stats (snd r) \<noteq> stats p
     \<and> total_processed (stats (snd r)) = total_processed u + 2
     \<and> encoding_time_ms (stats (snd r)) = t1 - t0
     \<and> last_compression_ratio (stats (snd r)) =
         float_div F (float_of_size F 2) (float_of_size F 0)
     \<and> average_compression_ratio (stats (snd r)) =
         float_div F
           (float_add F (average_compression_ratio u)
              (float_div F (float_of_size F 2) (float_of_size F 0)))
           (float_two F))"
proof -
  define p where "p = AudioProcessor_new F psramFound (\<lambda>n. None) (\<lambda>n. None) u"
  define r where "r = encodeAudioBase64 F base64_encode t0 t1 p (Some [1000])"
  have p: "compressed_buffer p = None" "stats p = u"
    by (simp_all add: p_def AudioProcessor_new_def)
  have run: "compressAudio u (Some (bytes_of [1000])) None = (0, None, u)"
    by (simp add: compressAudio_def)
  have r: "fst r = base64_encode []" "compressed_buffer (snd r) = None"
      "total_processed (stats (snd r)) = total_processed u + 2"
      "encoding_time_ms (stats (snd r)) = t1 - t0"
      "last_compression_ratio (stats (snd r)) =
         float_div F (float_of_size F 2) (float_of_size F 0)"
      "average_compression_ratio (stats (snd r)) =
         float_div F
           (float_add F (average_compression_ratio u)
              (float_div F (float_of_size F 2) (float_of_size F 0)))
           (float_two F)"
    by (simp_all add: r_def encodeAudioBase64_def Let_def p run)
  have "total_processed (stats (snd r)) \<noteq> total_processed (stats p)"
    by (simp add: r(3) p(2))
  then have "stats (snd r) \<noteq> stats p" by auto
  with p r show ?thesis
    unfolding Let_def p_def [symmetric] r_def [symmetric] by simp
qed

text \<open>
  Claim C5. For every non-empty sample buffer that contains no run of 8 or more
  consecutive samples of absolute value at most 100, and whose raw byte size passes the
  capacity guard (at most capacity - 4 bytes), compress returns exactly
  \<open>2 * sample_count\<close>; the bytes it emits are the raw bytes of the buffer.
\<close>

theorem C5_no_silence_same_size:
  assumes "samples \<noteq> []" and "\<not> has_silence_run samples"
    and "2 * length samples \<le> COMPRESSION_BUFFER_SIZE - 4"
    and "length out = COMPRESSION_BUFFER_SIZE"
  shows "fst (compressAudio st (Some (bytes_of samples)) (Some out)) = 2 * length samples
       \<and> (\<exists>b. fst (snd (compressAudio st (Some (bytes_of samples)) (Some out))) = Some b
              \<and> take (2 * length samples) b = bytes_of samples)"
proof -
  let ?inp = "bytes_of samples"
  let ?st0 = "\<lparr>cs_out_idx = 0, cs_i = 0, cs_output = out, cs_stats = st\<rparr>"
  let ?fin = "compress_loop ?inp ?st0"
  have loud: "\<forall>k. \<not> isSilence (Some (drop k (samples_of ?inp)))"
    using assms(2) isSilence_has_silence_run by (auto simp: samples_of_bytes_of)
  have half: "length ?inp div 2 = length samples" by (simp add: length_bytes_of)
  from compress_loop_loud [OF loud, of ?st0] assms(3,4)
  have n: "cs_out_idx ?fin = 2 * length samples"
    and bytes: "\<And>k. k < length samples \<Longrightarrow>
        cs_output ?fin ! (2 * k) = ?inp ! (2 * k)
      \<and> cs_output ?fin ! (2 * k + 1) = ?inp ! (2 * k + 1)"
    by (simp_all add: half)
  have lenfin: "length (cs_output ?fin) = COMPRESSION_BUFFER_SIZE"
    using assms(4) by (simp add: compress_loop_length)
  have "take (2 * length samples) (cs_output ?fin) = ?inp"
  proof (rule nth_equalityI)
    show "length (take (2 * length samples) (cs_output ?fin)) = length ?inp"
      using assms(3) lenfin by (simp add: length_bytes_of)
  next
    fix i assume "i < length (take (2 * length samples) (cs_output ?fin))"
    then have i: "i < 2 * length samples" by simp
    then have k: "i div 2 < length samples" by simp
    have "i = 2 * (i div 2) \<or> i = 2 * (i div 2) + 1" by presburger
    with bytes [OF k] have "cs_output ?fin ! i = ?inp ! i" by metis
    with i show "take (2 * length samples) (cs_output ?fin) ! i = ?inp ! i" by simp
  qed
  moreover from assms(1) have "length ?inp \<noteq> 0" by (simp add: length_bytes_of)
  ultimately show ?thesis using n by (simp add: compressAudio_def Let_def)
qed

theorem C5_no_silence_same_size_witness:
  "[1000, 2000] \<noteq> ([] :: int16_t list) \<and> \<not> has_silence_run [1000, 2000]
   \<and> 2 * length [1000 :: int16_t, 2000] \<le> COMPRESSION_BUFFER_SIZE - 4
   \<and> length (replicate 8192 (0 :: uint8_t)) = COMPRESSION_BUFFER_SIZE
   \<and> fst (compressAudio (zeroed_stats exact_ops) (Some (bytes_of [1000, 2000]))
            (Some (replicate 8192 0))) = 4"
proof -
  have h: "\<not> has_silence_run [1000, 2000]"
    by (simp add: has_silence_run_def MIN_SILENCE_SAMPLES_def)
  have c: "2 * length [1000 :: int16_t, 2000] \<le> COMPRESSION_BUFFER_SIZE - 4"
      "length (replicate 8192 (0 :: uint8_t)) = COMPRESSION_BUFFER_SIZE"
    by (simp_all add: COMPRESSION_BUFFER_SIZE_def)
  from C5_no_silence_same_size [OF _ h c, of "zeroed_stats exact_ops"] h c
  show ?thesis by simp
qed

text \<open>
  Claim C6. For every buffer that is one silence run of length \<open>L\<close>,
  \<open>8 \<le> L \<le> 2048\<close>, compress returns 3 and writes three bytes: the marker \<open>0xFF\<close>,
  then \<open>L\<close> as a little-endian 16-bit integer (low byte, high byte); the rest of the
  buffer is unchanged and the silence counter goes up by one.
\<close>

theorem C6_single_silence_run:
  assumes "8 \<le> length samples" and "length samples \<le> 2048"
    and "\<forall>s \<in> set samples. abs_sample s \<le> SILENCE_THRESHOLD"
    and "length out = COMPRESSION_BUFFER_SIZE"
  shows "\<exists>lo hi.
           compressAudio st (Some (bytes_of samples)) (Some out) =
             (3, Some (out[0 := 0xFF, 1 := lo, 2 := hi]),
              st\<lparr>silence_regions_compressed := silence_regions_compressed st + 1\<rparr>)
         \<and> unat lo + 256 * unat hi = length samples"
proof -
  let ?st0 = "\<lparr>cs_out_idx = 0, cs_i = 0, cs_output = out, cs_stats = st\<rparr>"
  let ?lo = "of_nat (length samples AND 0xFF) :: uint8_t"
  let ?hi = "of_nat (drop_bit 8 (length samples) AND 0xFF) :: uint8_t"
  from assms(1) have ne: "length (bytes_of samples) \<noteq> 0" by (auto simp: length_bytes_of)
  have "compress_loop (bytes_of samples) ?st0 =
      ?st0\<lparr>cs_output := out[0 := SILENCE_MARKER, 1 := ?lo, 2 := ?hi],
           cs_out_idx := 3, cs_i := length samples,
           cs_stats := st\<lparr>silence_regions_compressed :=
                            silence_regions_compressed st + 1\<rparr>\<rparr>"
    using compress_loop_silence_run [OF assms(1-3), of ?st0]
    by (simp add: COMPRESSION_BUFFER_SIZE_def numeral_2_eq_2)
  with ne have "compressAudio st (Some (bytes_of samples)) (Some out) =
      (3, Some (out[0 := 0xFF, 1 := ?lo, 2 := ?hi]),
       st\<lparr>silence_regions_compressed := silence_regions_compressed st + 1\<rparr>)"
    by (simp add: compressAudio_def Let_def SILENCE_MARKER_def)
  moreover have "unat ?lo + 256 * unat ?hi = length samples"
    using assms(2) by (simp add: low_byte_nat drop_bit_eq_div)
  ultimately show ?thesis by blast
qed

theorem C6_single_silence_run_witness:
  "8 \<le> length (replicate 12 (0 :: int16_t)) \<and> length (replicate 12 (0 :: int16_t)) \<le> 2048
   \<and> set (replicate 12 (0 :: int16_t)) = {0} \<and> abs_sample 0 \<le> SILENCE_THRESHOLD
   \<and> length (replicate 8192 (0 :: uint8_t)) = COMPRESSION_BUFFER_SIZE
   \<and> fst (compressAudio (zeroed_stats exact_ops) (Some (bytes_of (replicate 12 0)))
            (Some (replicate 8192 0))) = 3"
proof -
  have q: "\<forall>s \<in> set (replicate 12 (0 :: int16_t)). abs_sample s \<le> SILENCE_THRESHOLD"
    by (simp add: abs_sample_def SILENCE_THRESHOLD_def)
  have c: "length (replicate 8192 (0 :: uint8_t)) = COMPRESSION_BUFFER_SIZE"
    by (simp add: COMPRESSION_BUFFER_SIZE_def)
  have z: "abs_sample 0 \<le> SILENCE_THRESHOLD"
    by (simp add: abs_sample_def SILENCE_THRESHOLD_def)
  from C6_single_silence_run [OF _ _ q c, of "zeroed_stats exact_ops"] z c
  show ?thesis by auto
qed




text \<open>
  Claim C8: every call of \<open>setupSecureConnection\<close> outside the trust-all branch installs
  the pinned root CA and sets the 30 s timeout. The code does so when \<open>development_mode\<close>
  is false. When \<open>development_mode\<close> is true and the build has no \<open>DEVELOPMENT\<close> flag,
  the fallback branch installs the root CA only: the client receives no \<open>setTimeout\<close>.
\<close>

theorem C8_fallback_sets_no_timeout:
  "issued [] (snd (setupSecureConnection False SecureConnectionManager_new [] True))
     = [SetCACert root_ca]
   \<and> issued [] (snd (setupSecureConnection False SecureConnectionManager_new [] False))
     = [SetCACert root_ca, SetTimeout 30000]"
  by (simp add: setupSecureConnection_def issued_def Let_def)
text \<open>
  Claim C9. The compress loop terminates for every input. A position that \<open>isSilence\<close>
  accepts has a counted run of at least 1, in fact of at least the 8 probed samples; one
  pass of the body moves the input cursor by the counted run at a silent position and by
  exactly 1 otherwise, so by at least 1; and the loop is a number of passes of the body
  that is at most the number of samples left, after which the loop test fails.
\<close>

theorem C9_compress_loop_terminates:
  "(isSilence (Some v) \<longrightarrow>
      1 \<le> countSilence (Some v) \<and> MIN_SILENCE_SAMPLES \<le> countSilence (Some v))
   \<and> cs_i (compress_body input st) =
       (if isSilence (Some (drop (cs_i st) (samples_of input)))
        then cs_i st + countSilence (Some (drop (cs_i st) (samples_of input)))
        else cs_i st + 1)
   \<and> cs_i st + 1 \<le> cs_i (compress_body input st)
   \<and> (\<exists>m \<le> length input div 2 - cs_i st.
         \<not> compress_cond input ((compress_body input ^^ m) st)
       \<and> compress_loop input st = (compress_body input ^^ m) st)"
proof -
  have "1 \<le> countSilence (Some v) \<and> MIN_SILENCE_SAMPLES \<le> countSilence (Some v)"
    if "isSilence (Some v)"
    using countSilence_probe [OF that] by (simp add: MIN_SILENCE_SAMPLES_def)
  moreover have "cs_i (compress_body input st) =
       (if isSilence (Some (drop (cs_i st) (samples_of input)))
        then cs_i st + countSilence (Some (drop (cs_i st) (samples_of input)))
        else cs_i st + 1)"
    by (simp add: compress_body_def Let_def)
  moreover have "cs_i st + 1 \<le> cs_i (compress_body input st)"
    using compress_body_advances [of st input] by simp
  ultimately show ?thesis using compress_loop_iterations [of input st] by blast
qed

theorem C9_compress_loop_terminates_witness:
  "isSilence (Some (replicate 10 0))
   \<and> MIN_SILENCE_SAMPLES \<le> countSilence (Some (replicate 10 0))
   \<and> (\<exists>m \<le> 10.
         compress_loop (bytes_of (replicate 10 0))
           \<lparr>cs_out_idx = 0, cs_i = 0, cs_output = replicate 8192 0,
            cs_stats = zeroed_stats exact_ops\<rparr>
         = (compress_body (bytes_of (replicate 10 0)) ^^ m)
             \<lparr>cs_out_idx = 0, cs_i = 0, cs_output = replicate 8192 0,
              cs_stats = zeroed_stats exact_ops\<rparr>)"
proof -
  have sil: "isSilence (Some (replicate 10 0))"
    by (simp add: isSilence_def Let_def MIN_SILENCE_SAMPLES_def isSilence_scan_all
        abs_sample_def SILENCE_THRESHOLD_def)
  from C9_compress_loop_terminates [of "replicate 10 0" "bytes_of (replicate 10 0)"
      "\<lparr>cs_out_idx = 0, cs_i = 0, cs_output = replicate 8192 0,
        cs_stats = zeroed_stats exact_ops\<rparr>"] sil
  show ?thesis by (auto simp: length_bytes_of)
qed

text \<open>
  Claim C10. For every non-null input of at least one sample (2 bytes or more) and a
  non-null output buffer of the fixed capacity, compress returns at least 2. Hence, when
  \<open>encodeAudioBase64\<close> runs on a non-empty sample buffer with an allocated compression
  buffer, the divisor of \<open>last_compression_ratio\<close> is the conversion of a size that is
  at least 2.
\<close>

theorem C10_compressed_length_at_least_two:
  "(2 \<le> length inp \<and> length out = COMPRESSION_BUFFER_SIZE
      \<longrightarrow> 2 \<le> fst (compressAudio st (Some inp) (Some out)))
   \<and> (smp \<noteq> [] \<and> compressed_buffer p = Some buf \<and> length buf = COMPRESSION_BUFFER_SIZE
      \<longrightarrow> (let compressed_size =
                   fst (compressAudio (stats p) (Some (bytes_of smp)) (compressed_buffer p))
            in 2 \<le> compressed_size
             \<and> last_compression_ratio
                 (stats (snd (encodeAudioBase64 F base64_encode start_time end_time p
                    (Some smp))))
               = float_div F (float_of_size F (length smp * 2))
                   (float_of_size F compressed_size)))"
proof -
  have "2 \<le> fst (compressAudio (stats p) (Some (bytes_of smp)) (Some buf))"
    if "smp \<noteq> []"
  proof (rule compressAudio_at_least_two)
    from that show "2 \<le> length (bytes_of smp)"
      by (cases smp) (simp_all add: length_bytes_of)
  qed
  then show ?thesis
    by (auto simp: compressAudio_at_least_two encodeAudioBase64_stats Let_def)
qed

theorem C10_compressed_length_at_least_two_witness:
  "2 \<le> length [0x10 :: uint8_t, 0x27]
   \<and> length (replicate 8192 (0 :: uint8_t)) = COMPRESSION_BUFFER_SIZE
   \<and> 2 \<le> fst (compressAudio (zeroed_stats exact_ops) (Some [0x10, 0x27])
                 (Some (replicate 8192 0)))
   \<and> [1000 :: int16_t] \<noteq> []
   \<and> 2 \<le> fst (compressAudio (zeroed_stats exact_ops) (Some (bytes_of [1000]))
                 (Some (replicate 8192 0)))"
  using C10_compressed_length_at_least_two [of "[0x10, 0x27]" "replicate 8192 0"
      "zeroed_stats exact_ops" "[1000]"
      "\<lparr>compressed_buffer = Some (replicate 8192 0), stats = zeroed_stats exact_ops\<rparr>"
      "replicate 8192 0" exact_ops "\<lambda>bytes. []" 0 0]
  by (simp add: COMPRESSION_BUFFER_SIZE_def Let_def)

end
